theory Spec2Isabelle
  imports Main "HOL-Library.Word"
begin

section \<open>Go values, types and the reflection operations used by call.go\<close>

text \<open>
  Go's \<^verbatim>\<open>int\<close> is modelled at its 64-bit width: \<open>+\<close> wraps around, and the
  comparisons of the source are the signed ones (\<open>\<le>s\<close>, \<open><s\<close>).
\<close>

type_synonym goint = "64 word"

text \<open>The kinds of \<^verbatim>\<open>reflect.Kind\<close>, in the order of the Go library.\<close>

datatype kind =
    Invalid | Bool | IntK | Int8 | Int16 | Int32 | Int64
  | Uint | Uint8 | Uint16 | Uint32 | Uint64 | Uintptr
  | Float32 | Float64 | Complex64 | Complex128
  | Array | Chan | Func | Interface | Map | Ptr | Slice | String | Struct | UnsafePointer

text \<open>
  The kinds of the types that have no element, parameter or result type that call.go
  reads: every kind of a type but \<open>Ptr\<close> and \<open>Func\<close>.
\<close>

datatype plain_kind =
    BoolT | IntT | Int8T | Int16T | Int32T | Int64T
  | UintT | Uint8T | Uint16T | Uint32T | Uint64T | UintptrT
  | Float32T | Float64T | Complex64T | Complex128T
  | ArrayT | ChanT | InterfaceT | MapT | SliceT | StringT | StructT | UnsafePointerT

fun kind_of :: "plain_kind \<Rightarrow> kind" where
  "kind_of BoolT = Bool"
| "kind_of IntT = IntK"
| "kind_of Int8T = Int8"
| "kind_of Int16T = Int16"
| "kind_of Int32T = Int32"
| "kind_of Int64T = Int64"
| "kind_of UintT = Uint"
| "kind_of Uint8T = Uint8"
| "kind_of Uint16T = Uint16"
| "kind_of Uint32T = Uint32"
| "kind_of Uint64T = Uint64"
| "kind_of UintptrT = Uintptr"
| "kind_of Float32T = Float32"
| "kind_of Float64T = Float64"
| "kind_of Complex64T = Complex64"
| "kind_of Complex128T = Complex128"
| "kind_of ArrayT = Array"
| "kind_of ChanT = Chan"
| "kind_of InterfaceT = Interface"
| "kind_of MapT = Map"
| "kind_of SliceT = Slice"
| "kind_of StringT = String"
| "kind_of StructT = Struct"
| "kind_of UnsafePointerT = UnsafePointer"

text \<open>
  A \<^verbatim>\<open>reflect.Type\<close>. A pointer type carries its element type and a function type its
  parameter and result types, since \<^verbatim>\<open>Elem\<close>, \<^verbatim>\<open>In\<close> and \<^verbatim>\<open>Out\<close> read them.
  \<open>Defined n u\<close> is the defined type \<^verbatim>\<open>type n u\<close>: a type of its own, with the kind,
  element type, parameters and results of its underlying type \<open>u\<close> (so \<^verbatim>\<open>type P *int\<close>
  is \<open>Defined ''P'' (PtrTo int)\<close>). \<open>Named n k\<close> is a type of any other kind \<open>k\<close>,
  identified by its name: call.go never looks into its structure.
\<close>

datatype go_type =
    Named string plain_kind
  | PtrTo go_type
  | FuncOf "go_type list" "go_type list"
  | Defined string go_type

fun Kind :: "go_type \<Rightarrow> kind" where
  "Kind (Named n k) = kind_of k"
| "Kind (PtrTo e) = Ptr"
| "Kind (FuncOf ins outs) = Func"
| "Kind (Defined n u) = Kind u"

text \<open>
  The accessors of \<^verbatim>\<open>reflect.Type\<close> panic on a type of the wrong kind and on an
  index out of range; \<open>None\<close> is that panic. call.go asks \<^verbatim>\<open>Elem\<close> only of a type of
  kind \<open>Ptr\<close>, and every such type has its element type here.
\<close>

fun Ins :: "go_type \<Rightarrow> go_type list option" where
  "Ins (FuncOf ins outs) = Some ins"
| "Ins (Named n k) = None"
| "Ins (PtrTo e) = None"
| "Ins (Defined n u) = Ins u"

fun Outs :: "go_type \<Rightarrow> go_type list option" where
  "Outs (FuncOf ins outs) = Some outs"
| "Outs (Named n k) = None"
| "Outs (PtrTo e) = None"
| "Outs (Defined n u) = Outs u"


definition NumOut :: "go_type \<Rightarrow> nat option" where
  "NumOut t = map_option length (Outs t)"

definition In :: "go_type \<Rightarrow> nat \<Rightarrow> go_type option" where
  "In t i = (case Ins t of
               None \<Rightarrow> None
             | Some ins \<Rightarrow> if i < length ins then Some (ins ! i) else None)"

definition Out :: "go_type \<Rightarrow> nat \<Rightarrow> go_type option" where
  "Out t i = (case Outs t of
                None \<Rightarrow> None
              | Some outs \<Rightarrow> if i < length outs then Some (outs ! i) else None)"

fun Elem :: "go_type \<Rightarrow> go_type option" where
  "Elem (PtrTo e) = Some e"
| "Elem (Named n k) = None"
| "Elem (FuncOf ins outs) = None"
| "Elem (Defined n u) = Elem u"

text \<open>
  What a value holds besides its type: the zero value of its type (0, the empty string,
  false, a nil pointer, slice, map, channel or function, an all-zero struct), a non-nil
  pointer to a memory cell, or any other datum. A value of a pointer type is the nil
  pointer \<open>ZeroRep\<close> or an address \<open>Addr a\<close>.
\<close>

datatype rep = ZeroRep | Addr nat | Data nat

text \<open>
  An \<^verbatim>\<open>interface{}\<close> value is the untyped \<^verbatim>\<open>nil\<close> or a value with its dynamic
  type. A \<^verbatim>\<open>reflect.Value\<close> is the zero Value (\<^verbatim>\<open>IsValid\<close> is false) or a typed
  value; unlike an \<^verbatim>\<open>interface{}\<close> its type may be an interface type, which is what
  \<^verbatim>\<open>reflect.Zero\<close> of an interface type gives (holding nil).
\<close>

datatype gval = GoNil | Val go_type rep

datatype rvalue = NoValue | Value go_type rep

fun TypeOf :: "gval \<Rightarrow> go_type option" where
  "TypeOf GoNil = None"
| "TypeOf (Val t r) = Some t"

fun ValueOf :: "gval \<Rightarrow> rvalue" where
  "ValueOf GoNil = NoValue"
| "ValueOf (Val t r) = Value t r"

fun IsValid :: "rvalue \<Rightarrow> bool" where
  "IsValid NoValue = False"
| "IsValid (Value t r) = True"

text \<open>\<^verbatim>\<open>Value.Type()\<close>, which panics on the zero Value.\<close>

fun ValueType :: "rvalue \<Rightarrow> go_type option" where
  "ValueType NoValue = None"
| "ValueType (Value t r) = Some t"

definition Zero :: "go_type \<Rightarrow> rvalue" where
  "Zero t = Value t ZeroRep"

text \<open>
  \<^verbatim>\<open>Value.Interface()\<close>: the value as an \<^verbatim>\<open>interface{}\<close>. A Value of interface
  type holds nil here, and nil of an interface type is the untyped nil.
\<close>

fun ValueInterface :: "rvalue \<Rightarrow> gval" where
  "ValueInterface NoValue = GoNil"
| "ValueInterface (Value t r) = (if Kind t = Interface then GoNil else Val t r)"

text \<open>
  \<^verbatim>\<open>Type.AssignableTo\<close>. Identical types are assignable; what else Go's assignability
  allows (identical underlying types, a type implementing an interface, channel
  directions) depends on declarations outside call.go and is the parameter \<open>asg\<close>.
\<close>

definition AssignableTo :: "(go_type \<Rightarrow> go_type \<Rightarrow> bool) \<Rightarrow> go_type \<Rightarrow> go_type \<Rightarrow> bool" where
  "AssignableTo asg vt dt = (vt = dt \<or> asg vt dt)"

text \<open>
  Assigning a value of dynamic type \<open>vt\<close> to a variable of type \<open>dt\<close> and reading the
  variable back as an \<^verbatim>\<open>interface{}\<close>: a variable of interface type keeps the dynamic
  type, any other variable gives the value its own type. This is
  \<^verbatim>\<open>v := reflect.New(dt).Elem(); v.Set(x); v.Interface()\<close>, and the content of the cell
  after \<^verbatim>\<open>p.Elem().Set(x)\<close> for a pointer \<open>p\<close> to a \<open>dt\<close>.
\<close>

definition stored :: "go_type \<Rightarrow> go_type \<Rightarrow> rep \<Rightarrow> gval" where
  "stored dt vt vr = (if Kind dt = Interface then Val vt vr else Val dt vr)"

section \<open>The expectation\<close>

text \<open>
  Modelled from the spec: the interface \<^verbatim>\<open>Matcher\<close>, which call.go uses and does not
  declare. The specification describes it as a predicate object that tests whether one
  actual argument value satisfies an expected pattern; it is a predicate here.
\<close>

type_synonym Matcher = "gval \<Rightarrow> bool"

text \<open>
  The struct \<^verbatim>\<open>Call\<close>. Pointers to expectations (\<^verbatim>\<open>*Call\<close>) are addresses into a
  store of expectations, see below. A nil slice is \<open>None\<close> where the source tests for it
  (\<open>rets\<close>), and so is the nil map \<open>setArgs\<close>. The field \<open>method\<close> is \<open>methodName\<close>
  here. The reporter \<open>t\<close> is represented by the outcome \<open>Fatal\<close> of the operations that
  call it.
\<close>

record Call =
  receiver :: gval
  methodName :: string
  methodType :: go_type
  args :: "Matcher list"
  rets :: "gval list option"
  origin :: string
  preReqs :: "nat list"
  minCalls :: goint
  maxCalls :: goint
  numCalls :: goint
  doFunc :: rvalue
  setArgs :: "(goint \<rightharpoonup> rvalue) option"

text \<open>
  Modelled from the spec: the interface \<^verbatim>\<open>TestReporter\<close> with its method
  \<^verbatim>\<open>Fatalf\<close>, which call.go calls and does not declare. The specification says that
  the call halts the current test's progress as if a hard assertion failed; so an
  operation that reaches \<^verbatim>\<open>Fatalf\<close> stops there with the outcome \<open>Fatal\<close>, keeping the
  state it had reached. The other way to fail, \<open>Panic\<close>, is a run-time panic of Go.
\<close>

datatype fatal =
    OwnPrerequisite
  | LoopInCallOrder
  | WrongNumberOfReturns nat nat
  | NilNotNillable nat
  | WrongReturnType nat
  | SetArgIndex
  | SetArgNotAssignable
  | SetArgNonPointer

datatype panic = NilDereference | IndexOutOfRange | ReflectPanic

datatype failure = Fatal fatal | Panic panic

subsection \<open>Bounds\<close>

definition AnyTimes :: "Call \<Rightarrow> Call" where
  "AnyTimes c = c\<lparr>minCalls := 0, maxCalls := 100000000\<rparr>"

definition MinTimes :: "goint \<Rightarrow> Call \<Rightarrow> Call" where
  "MinTimes n c =
     (let c1 = c\<lparr>minCalls := n\<rparr>
      in if maxCalls c1 = 1 then c1\<lparr>maxCalls := 100000000\<rparr> else c1)"

definition MaxTimes :: "goint \<Rightarrow> Call \<Rightarrow> Call" where
  "MaxTimes n c =
     (let c1 = c\<lparr>maxCalls := n\<rparr>
      in if minCalls c1 = 1 then c1\<lparr>minCalls := 0\<rparr> else c1)"

definition Times :: "goint \<Rightarrow> Call \<Rightarrow> Call" where
  "Times n c = c\<lparr>minCalls := n, maxCalls := n\<rparr>"

definition satisfied :: "Call \<Rightarrow> bool" where
  "satisfied c = (minCalls c \<le>s numCalls c)"

definition exhausted :: "Call \<Rightarrow> bool" where
  "exhausted c = (maxCalls c \<le>s numCalls c)"

text \<open>A sequence of bound-setting operations, and the expectation after each of them.\<close>

datatype bound_op = OpAnyTimes | OpMinTimes goint | OpMaxTimes goint | OpTimes goint

fun apply_bound_op :: "bound_op \<Rightarrow> Call \<Rightarrow> Call" where
  "apply_bound_op OpAnyTimes c = AnyTimes c"
| "apply_bound_op (OpMinTimes n) c = MinTimes n c"
| "apply_bound_op (OpMaxTimes n) c = MaxTimes n c"
| "apply_bound_op (OpTimes n) c = Times n c"

fun bound_trace :: "Call \<Rightarrow> bound_op list \<Rightarrow> Call list" where
  "bound_trace c [] = []"
| "bound_trace c (op # ops) = apply_bound_op op c # bound_trace (apply_bound_op op c) ops"

fun op_arg_nonneg :: "bound_op \<Rightarrow> bool" where
  "op_arg_nonneg OpAnyTimes = True"
| "op_arg_nonneg (OpMinTimes n) = (0 \<le>s n)"
| "op_arg_nonneg (OpMaxTimes n) = (0 \<le>s n)"
| "op_arg_nonneg (OpTimes n) = (0 \<le>s n)"

text \<open>
  Whether a bound-setting operation asks for bounds that fit the bound already in force:
  \<^verbatim>\<open>MinTimes(n)\<close> with \<open>n\<close> at most the upper bound it leaves, \<^verbatim>\<open>MaxTimes(n)\<close> with
  \<open>n\<close> at least the lower bound it leaves.
\<close>

fun consistent :: "bound_op \<Rightarrow> Call \<Rightarrow> bool" where
  "consistent OpAnyTimes c = True"
| "consistent (OpMinTimes n) c = (n \<le>s (if maxCalls c = 1 then 100000000 else maxCalls c))"
| "consistent (OpMaxTimes n) c = ((if minCalls c = 1 then 0 else minCalls c) \<le>s n)"
| "consistent (OpTimes n) c = True"

fun all_consistent :: "Call \<Rightarrow> bound_op list \<Rightarrow> bool" where
  "all_consistent c [] = True"
| "all_consistent c (op # ops) = (consistent op c \<and> all_consistent (apply_bound_op op c) ops)"

subsection \<open>Actions and return values\<close>


text \<open>The elements of a slice, and the entries of a map; the nil ones have none.\<close>

fun elems :: "'a list option \<Rightarrow> 'a list" where
  "elems None = []"
| "elems (Some xs) = xs"

fun elems_map :: "('k \<rightharpoonup> 'v) option \<Rightarrow> ('k \<rightharpoonup> 'v)" where
  "elems_map None = Map.empty"
| "elems_map (Some m) = m"

definition nillable :: "kind \<Rightarrow> bool" where
  "nillable k = (k = Chan \<or> k = Func \<or> k = Interface \<or> k = Map \<or> k = Ptr \<or> k = Slice)"

text \<open>
  The loop of \<^verbatim>\<open>Return\<close> over \<^verbatim>\<open>rets\<close> from index \<open>i\<close> on: the values as they are
  stored, or the first failure.
\<close>

fun Return_loop ::
  "(go_type \<Rightarrow> go_type \<Rightarrow> bool) \<Rightarrow> go_type \<Rightarrow> nat \<Rightarrow> gval list \<Rightarrow> failure + gval list" where
  "Return_loop asg mt i [] = Inr []"
| "Return_loop asg mt i (ret # rest) =
     (case Out mt i of
        None \<Rightarrow> Inl (Panic ReflectPanic)
      | Some want \<Rightarrow>
          (case (case ret of
                   GoNil \<Rightarrow> if nillable (Kind want) then Inr ret else Inl (Fatal (NilNotNillable i))
                 | Val got r \<Rightarrow>
                     if got = want then Inr ret
                     else if AssignableTo asg got want then Inr (stored want got r)
                     else Inl (Fatal (WrongReturnType i))) of
             Inl f \<Rightarrow> Inl f
           | Inr v \<Rightarrow>
               (case Return_loop asg mt (Suc i) rest of
                  Inl f \<Rightarrow> Inl f
                | Inr vs \<Rightarrow> Inr (v # vs))))"

text \<open>
  \<^verbatim>\<open>Return\<close>. The variadic parameter is a slice: nil when called without arguments.
  The result is the failure, if any, and the expectation.
\<close>

definition Return ::
  "(go_type \<Rightarrow> go_type \<Rightarrow> bool) \<Rightarrow> gval list option \<Rightarrow> Call \<Rightarrow> failure option \<times> Call" where
  "Return asg vals c =
     (case NumOut (methodType c) of
        None \<Rightarrow> (Some (Panic ReflectPanic), c)
      | Some n \<Rightarrow>
          if length (elems vals) \<noteq> n
          then (Some (Fatal (WrongNumberOfReturns (length (elems vals)) n)), c)
          else (case Return_loop asg (methodType c) 0 (elems vals) of
                  Inl f \<Rightarrow> (Some f, c)
                | Inr vs \<Rightarrow> (None, c\<lparr>rets := map_option (\<lambda>_. vs) vals\<rparr>)))"


subsection \<open>Prerequisites\<close>

text \<open>
  The expectations live in a store; a \<^verbatim>\<open>*Call\<close> is an address into it. An address
  outside the store stands for the nil pointer (Go has no dangling pointers), and reading
  a field through it panics.
  \<open>edges s\<close> is the prerequisite relation: \<open>(c, p)\<close> when \<open>p\<close> is in \<open>c.preReqs\<close>.
\<close>

type_synonym store = "Call list"

definition edges :: "store \<Rightarrow> (nat \<times> nat) set" where
  "edges s = {(c, p). c < length s \<and> p \<in> set (preReqs (s ! c))}"

text \<open>
  \<^verbatim>\<open>isPreReq\<close>: the loop over a list of prerequisites, which for each of them calls
  \<^verbatim>\<open>isPreReq\<close> again, that is, runs the loop over that prerequisite's own list. The
  recursion follows the pointers and may not end: \<open>None\<close> is not returning.
\<close>

partial_function (option) isPreReq_loop :: "store \<Rightarrow> nat list \<Rightarrow> nat \<Rightarrow> (panic + bool) option" where
  "isPreReq_loop s prs other =
     (case prs of
        [] \<Rightarrow> Some (Inr False)
      | preReq # rest \<Rightarrow>
          if other = preReq then Some (Inr True)
          else if length s \<le> preReq then Some (Inl NilDereference)
          else Option.bind (isPreReq_loop s (preReqs (s ! preReq)) other)
                 (\<lambda>r. case r of
                         Inl e \<Rightarrow> Some (Inl e)
                       | Inr b \<Rightarrow> if b then Some (Inr True) else isPreReq_loop s rest other))"

definition isPreReq :: "store \<Rightarrow> nat \<Rightarrow> nat \<Rightarrow> (panic + bool) option" where
  "isPreReq s c other =
     (if length s \<le> c then Some (Inl NilDereference)
      else isPreReq_loop s (preReqs (s ! c)) other)"

text \<open>
  \<^verbatim>\<open>After\<close>: the failure, if any, and the store it leaves; \<open>None\<close> when \<^verbatim>\<open>isPreReq\<close>
  does not return.
\<close>

definition After :: "store \<Rightarrow> nat \<Rightarrow> nat \<Rightarrow> (failure option \<times> store) option" where
  "After s c preReq =
     (if c = preReq then
        Some (if length s \<le> c then Some (Panic NilDereference) else Some (Fatal OwnPrerequisite), s)
      else
        Option.bind (isPreReq s preReq c)
          (\<lambda>r. case r of
                  Inl e \<Rightarrow> Some (Some (Panic e), s)
                | Inr b \<Rightarrow>
                    if length s \<le> c then Some (Some (Panic NilDereference), s)
                    else if b then Some (Some (Fatal LoopInCallOrder), s)
                    else Some (None, s[c := (s ! c)\<lparr>preReqs := preReqs (s ! c) @ [preReq]\<rparr>])))"

subsection \<open>Matching\<close>

text \<open>Why \<^verbatim>\<open>matches\<close> rejects, one constructor for each error it returns.\<close>

datatype mismatch =
    InvalidNumberOfArguments nat nat
  | ArgumentDidNotMatch nat
  | PrerequisiteNotSatisfied nat

text \<open>The loop over the matchers from index \<open>i\<close> on: the first index that does not match.\<close>

fun matchArgs :: "nat \<Rightarrow> Matcher list \<Rightarrow> gval list \<Rightarrow> panic + nat option" where
  "matchArgs i [] actual = Inr None"
| "matchArgs i (m # ms) actual =
     (if length actual \<le> i then Inl IndexOutOfRange
      else if \<not> m (actual ! i) then Inr (Some i)
      else matchArgs (Suc i) ms actual)"

text \<open>The loop over the prerequisites: the first one that is not satisfied.\<close>

fun checkPreReqs :: "store \<Rightarrow> nat list \<Rightarrow> panic + nat option" where
  "checkPreReqs s [] = Inr None"
| "checkPreReqs s (preReqCall # rest) =
     (if length s \<le> preReqCall then Inl NilDereference
      else if \<not> satisfied (s ! preReqCall) then Inr (Some preReqCall)
      else checkPreReqs s rest)"

text \<open>
  \<^verbatim>\<open>matches\<close>, with the store as it leaves it: \<open>Inr None\<close> is the nil error, \<open>Inr (Some e)\<close>
  an error, \<open>Inl\<close> a panic.
\<close>

definition matches :: "store \<Rightarrow> nat \<Rightarrow> gval list \<Rightarrow> (panic + mismatch option) \<times> store" where
  "matches s c actual =
     (if length s \<le> c then (Inl NilDereference, s)
      else if length actual \<noteq> length (args (s ! c))
      then (Inr (Some (InvalidNumberOfArguments (length actual) (length (args (s ! c))))), s)
      else (case matchArgs 0 (args (s ! c)) actual of
              Inl p \<Rightarrow> (Inl p, s)
            | Inr (Some i) \<Rightarrow> (Inr (Some (ArgumentDidNotMatch i)), s)
            | Inr None \<Rightarrow>
                (case checkPreReqs s (preReqs (s ! c)) of
                   Inl p \<Rightarrow> (Inl p, s)
                 | Inr (Some p) \<Rightarrow> (Inr (Some (PrerequisiteNotSatisfied p)), s)
                 | Inr None \<Rightarrow> (Inr None, s))))"

subsection \<open>Invocation\<close>

text \<open>
  The cells that the pointers among the actual arguments point to. They are apart from
  the expectations: the fields of a \<^verbatim>\<open>Call\<close> are not exported, so no argument of a
  mocked method points into one.
\<close>

type_synonym memory = "nat \<Rightarrow> gval"

text \<open>
  The arguments for the action, from index \<open>i\<close> on: a nil argument becomes the zero value
  of the action's \<open>i\<close>-th parameter type.
\<close>

fun doArgs_loop :: "go_type \<Rightarrow> nat \<Rightarrow> gval list \<Rightarrow> panic + rvalue list" where
  "doArgs_loop ft i [] = Inr []"
| "doArgs_loop ft i (a # rest) =
     (case (if a \<noteq> GoNil then Inr (ValueOf a)
            else (case In ft i of None \<Rightarrow> Inl ReflectPanic | Some t \<Rightarrow> Inr (Zero t))) of
        Inl p \<Rightarrow> Inl p
      | Inr v \<Rightarrow>
          (case doArgs_loop ft (Suc i) rest of
             Inl p \<Rightarrow> Inl p
           | Inr vs \<Rightarrow> Inr (v # vs)))"

text \<open>
  \<^verbatim>\<open>reflect.ValueOf(args[n]).Elem().Set(v)\<close>: the index must be in range, the argument a
  non-nil pointer (a value whose type is of kind \<open>Ptr\<close>), and \<open>v\<close> a valid Value
  assignable to the element type of the pointer's type; everything else panics.
\<close>

definition setArg_write ::
  "(go_type \<Rightarrow> go_type \<Rightarrow> bool) \<Rightarrow> gval list \<Rightarrow> memory \<Rightarrow> goint \<Rightarrow> rvalue \<Rightarrow> panic + memory" where
  "setArg_write asg actual mem n v =
     (if n <s 0 \<or> int (length actual) \<le> sint n then Inl IndexOutOfRange
      else (case actual ! nat (sint n) of
              GoNil \<Rightarrow> Inl ReflectPanic
            | Val t r \<Rightarrow>
                if Kind t \<noteq> Ptr then Inl ReflectPanic
                else (case r of
                        Addr a \<Rightarrow>
                          (case Elem t of
                             None \<Rightarrow> Inl ReflectPanic
                           | Some e \<Rightarrow>
                               (case v of
                                  NoValue \<Rightarrow> Inl ReflectPanic
                                | Value vt vr \<Rightarrow>
                                    if AssignableTo asg vt e
                                    then Inr (mem(a := stored e vt vr))
                                    else Inl ReflectPanic))
                      | ZeroRep \<Rightarrow> Inl ReflectPanic
                      | Data d \<Rightarrow> Inl ReflectPanic)))"

text \<open>
  The loop over the map \<open>setArgs\<close>. Go leaves the order of a map's keys open; \<open>ord\<close> is
  the order in which this run of the loop visits them.
\<close>

fun setArgs_loop ::
  "(go_type \<Rightarrow> go_type \<Rightarrow> bool) \<Rightarrow> (goint \<rightharpoonup> rvalue) \<Rightarrow> goint list \<Rightarrow> gval list \<Rightarrow> memory
     \<Rightarrow> panic option \<times> memory" where
  "setArgs_loop asg m [] actual mem = (None, mem)"
| "setArgs_loop asg m (n # ns) actual mem =
     (case m n of
        None \<Rightarrow> setArgs_loop asg m ns actual mem
      | Some v \<Rightarrow>
          (case setArg_write asg actual mem n v of
             Inl p \<Rightarrow> (Some p, mem)
           | Inr mem' \<Rightarrow> setArgs_loop asg m ns actual mem'))"

text \<open>
  \<^verbatim>\<open>call\<close>: the return values and the deferred action (the arguments \<^verbatim>\<open>doFunc\<close> is to
  be called with, \<open>None\<close> when there is no action), or the panic; with them the
  expectation and the memory as \<^verbatim>\<open>call\<close> leaves them.
\<close>

definition call ::
  "(go_type \<Rightarrow> go_type \<Rightarrow> bool) \<Rightarrow> goint list \<Rightarrow> Call \<Rightarrow> gval list \<Rightarrow> memory
     \<Rightarrow> (panic + gval list \<times> rvalue list option) \<times> Call \<times> memory" where
  "call asg ord c actual mem =
     (let c1 = c\<lparr>numCalls := numCalls c + 1\<rparr>
      in case (if IsValid (doFunc c1)
               then (case ValueType (doFunc c1) of
                       None \<Rightarrow> Inl ReflectPanic
                     | Some ft \<Rightarrow> map_sum id Some (doArgs_loop ft 0 actual))
               else Inr None) of
           Inl p \<Rightarrow> (Inl p, c1, mem)
         | Inr action \<Rightarrow>
             (case setArgs_loop asg (elems_map (setArgs c1)) ord actual mem of
                (Some p, mem') \<Rightarrow> (Inl p, c1, mem')
              | (None, mem') \<Rightarrow>
                  (case rets c1 of
                     Some vs \<Rightarrow> (Inr (vs, action), c1, mem')
                   | None \<Rightarrow>
                       (case Outs (methodType c1) of
                          None \<Rightarrow> (Inl ReflectPanic, c1, mem')
                        | Some outs \<Rightarrow>
                            (Inr (map (\<lambda>t. ValueInterface (Zero t)) outs, action), c1, mem')))))"

text \<open>
  Invoking \<^verbatim>\<open>call\<close> once for each element of a list of invocations (the order of the
  map's keys and the actual arguments of each), whatever each invocation returns.
\<close>

fun calls ::
  "(go_type \<Rightarrow> go_type \<Rightarrow> bool) \<Rightarrow> (goint list \<times> gval list) list \<Rightarrow> Call \<Rightarrow> memory \<Rightarrow> Call \<times> memory" where
  "calls asg [] c mem = (c, mem)"
| "calls asg ((ord, actual) # rest) c mem =
     (case call asg ord c actual mem of (r, c', mem') \<Rightarrow> calls asg rest c' mem')"

subsection \<open>A concrete expectation\<close>

text \<open>
  An expectation of a method \<^verbatim>\<open>Get(key string, out *int) (int, error)\<close> on which nothing
  has been declared yet: bounds \<open>[1, 1]\<close>, no calls made.
\<close>

definition sample_call :: Call where
  "sample_call =
     \<lparr>receiver = Val (PtrTo (Named ''MockIndex'' StructT)) (Addr 0),
      methodName = ''Get'',
      methodType = FuncOf [Named ''string'' StringT, PtrTo (Named ''int'' IntT)]
                          [Named ''int'' IntT, Named ''error'' InterfaceT],
      args = [\<lambda>x. x = Val (Named ''string'' StringT) (Data 1), \<lambda>x. True],
      rets = None,
      origin = ''index_test.go:10'',
      preReqs = [],
      minCalls = 1, maxCalls = 1, numCalls = 0,
      doFunc = NoValue,
      setArgs = None\<rparr>"

subsection \<open>Notions used in the statements\<close>

text \<open>No expectation of the store has the nil pointer among its prerequisites.\<close>

definition no_nil_preReqs :: "store \<Rightarrow> bool" where
  "no_nil_preReqs s = (\<forall>c<length s. \<forall>p \<in> set (preReqs (s ! c)). p < length s)"

text \<open>
  What \<^verbatim>\<open>p.isPreReq(other)\<close> returns for an expectation \<open>p\<close> of the store: it returns,
  a boolean it returns says whether \<open>other\<close> is reachable from \<open>p\<close> along the
  prerequisite relation, and without nil prerequisites it returns a boolean.
\<close>

definition node_ok :: "store \<Rightarrow> nat \<Rightarrow> nat \<Rightarrow> bool" where
  "node_ok s other p =
     (\<exists>r. isPreReq_loop s (preReqs (s ! p)) other = Some r \<and>
          (\<forall>b. r = Inr b \<longrightarrow> b = ((p, other) \<in> (edges s)\<^sup>+)) \<and>
          (no_nil_preReqs s \<longrightarrow> (\<exists>b. r = Inr b)))"

text \<open>
  How \<^verbatim>\<open>Return\<close> stores a value it accepts for a slot of type \<open>want\<close>: as it is when it
  is nil or of the slot's type, and assigned to the slot's type otherwise.
\<close>

fun returned_as :: "go_type \<Rightarrow> gval \<Rightarrow> gval" where
  "returned_as want GoNil = GoNil"
| "returned_as want (Val got r) = (if got = want then Val got r else stored want got r)"

text \<open>
  Two expectations, of \<^verbatim>\<open>Get\<close> and of \<^verbatim>\<open>Put\<close>, the second declared
  \<^verbatim>\<open>After\<close> the first.
\<close>

definition sample_store :: store where
  "sample_store = [sample_call, sample_call\<lparr>methodName := ''Put'', preReqs := [0]\<rparr>]"

section \<open>Properties of the bounds\<close>

lemma apply_bound_op_min_nonneg:
  "0 \<le>s minCalls c \<Longrightarrow> op_arg_nonneg op \<Longrightarrow> 0 \<le>s minCalls (apply_bound_op op c)"
  by (cases op) (simp_all add: AnyTimes_def MinTimes_def MaxTimes_def Times_def Let_def)

lemma apply_bound_op_ordered_iff:
  "minCalls (apply_bound_op op c) \<le>s maxCalls (apply_bound_op op c) \<longleftrightarrow> consistent op c"
  by (cases op) (simp_all add: AnyTimes_def MinTimes_def MaxTimes_def Times_def Let_def word_sle_eq)

lemma bound_trace_min_nonneg:
  "0 \<le>s minCalls c \<Longrightarrow> \<forall>op \<in> set ops. op_arg_nonneg op \<Longrightarrow>
   \<forall>c' \<in> set (bound_trace c ops). 0 \<le>s minCalls c'"
proof (induction ops arbitrary: c)
  case Nil
  show ?case by simp
next
  case (Cons op ops)
  have step: "0 \<le>s minCalls (apply_bound_op op c)"
    using Cons.prems by (simp add: apply_bound_op_min_nonneg)
  have "\<forall>c' \<in> set (bound_trace (apply_bound_op op c) ops). 0 \<le>s minCalls c'"
    using Cons.IH [OF step] Cons.prems(2) by simp
  with step show ?case by simp
qed

lemma bound_trace_ordered:
  "all_consistent c ops \<Longrightarrow> \<forall>c' \<in> set (bound_trace c ops). minCalls c' \<le>s maxCalls c'"
  by (induction ops arbitrary: c) (auto simp: apply_bound_op_ordered_iff)

text \<open>
  Claim C1 says that after every bound-setting operation of every sequence (arguments
  non-negative) \<open>0 \<le> minCalls \<le> maxCalls\<close>. The operations do not compare the two
  bounds: on a new expectation \<^verbatim>\<open>MaxTimes(2)\<close> followed by \<^verbatim>\<open>MinTimes(5)\<close> leaves the
  bounds \<open>[5, 2]\<close>.
\<close>

theorem C1_min_above_max_counterexample:
  "op_arg_nonneg (OpMaxTimes 2) \<and> op_arg_nonneg (OpMinTimes 5) \<and>
   bound_trace sample_call [OpMaxTimes 2, OpMinTimes 5]
     = [sample_call\<lparr>minCalls := 0, maxCalls := 2\<rparr>, sample_call\<lparr>minCalls := 5, maxCalls := 2\<rparr>] \<and>
   \<not> minCalls (last (bound_trace sample_call [OpMaxTimes 2, OpMinTimes 5]))
      \<le>s maxCalls (last (bound_trace sample_call [OpMaxTimes 2, OpMinTimes 5]))"
  by (simp add: sample_call_def MinTimes_def MaxTimes_def Let_def word_sle_eq)

text \<open>
  Claim C1, amended: for every expectation whose \<open>minCalls\<close> is not negative and every
  sequence of bound-setting operations with non-negative arguments, \<open>0 \<le> minCalls\<close> after
  each operation; \<open>minCalls \<le> maxCalls\<close> holds after an operation exactly when the
  operation is consistent with the bound in force (always for \<^verbatim>\<open>AnyTimes\<close> and
  \<^verbatim>\<open>Times\<close>; for \<^verbatim>\<open>MinTimes(n)\<close> when \<open>n\<close> is at most the upper bound it leaves, for
  \<^verbatim>\<open>MaxTimes(n)\<close> when \<open>n\<close> is at least the lower bound it leaves), hence after each
  operation of a sequence whose operations are all consistent.
\<close>

theorem C1_bounds_after_operations:
  assumes "0 \<le>s minCalls c" and "\<forall>op \<in> set ops. op_arg_nonneg op"
  shows "(\<forall>c' \<in> set (bound_trace c ops). 0 \<le>s minCalls c') \<and>
         (all_consistent c ops \<longrightarrow>
            (\<forall>c' \<in> set (bound_trace c ops). minCalls c' \<le>s maxCalls c')) \<and>
         (\<forall>op c1. minCalls (apply_bound_op op c1) \<le>s maxCalls (apply_bound_op op c1)
                     \<longleftrightarrow> consistent op c1)"
  using assms bound_trace_min_nonneg bound_trace_ordered apply_bound_op_ordered_iff by blast

theorem C1_bounds_after_operations_witness:
  "0 \<le>s minCalls sample_call \<and> op_arg_nonneg (OpMinTimes 2) \<and> op_arg_nonneg (OpMaxTimes 7) \<and>
   all_consistent sample_call [OpMinTimes 2, OpMaxTimes 7] \<and>
   bound_trace sample_call [OpMinTimes 2, OpMaxTimes 7]
     = [sample_call\<lparr>minCalls := 2, maxCalls := 100000000\<rparr>,
        sample_call\<lparr>minCalls := 2, maxCalls := 7\<rparr>] \<and>
   0 \<le>s minCalls (sample_call\<lparr>minCalls := 2, maxCalls := 7\<rparr>) \<and>
   minCalls (sample_call\<lparr>minCalls := 2, maxCalls := 7\<rparr>)
     \<le>s maxCalls (sample_call\<lparr>minCalls := 2, maxCalls := 7\<rparr>)"
  using C1_bounds_after_operations [of sample_call "[OpMinTimes 2, OpMaxTimes 7]"]
  by (simp add: sample_call_def MinTimes_def MaxTimes_def Let_def word_sle_eq)

lemma MinTimes_default:
  "minCalls c = 1 \<Longrightarrow> maxCalls c = 1 \<Longrightarrow>
   minCalls (MinTimes n c) = n \<and> maxCalls (MinTimes n c) = 100000000"
  by (simp add: MinTimes_def Let_def)

lemma MinTimes_after_MaxTimes:
  "m \<noteq> 1 \<Longrightarrow>
   minCalls (MinTimes n (MaxTimes m c)) = n \<and> maxCalls (MinTimes n (MaxTimes m c)) = m"
  by (simp add: MinTimes_def MaxTimes_def Let_def)

text \<open>
  Claim C3 says that \<^verbatim>\<open>MinTimes(n)\<close> on the default bounds \<open>[1, 1]\<close> yields
  \<open>[n, UNBOUNDED]\<close> (lemma \<open>MinTimes_default\<close>) and that after \<^verbatim>\<open>MaxTimes(m)\<close>, for any
  \<open>m\<close>, it yields \<open>[n, m]\<close>. The second part holds for every \<open>m\<close> but 1 (lemma
  \<open>MinTimes_after_MaxTimes\<close>): \<^verbatim>\<open>MinTimes\<close> takes \<open>maxCalls = 1\<close> for "no upper bound
  declared", so after \<^verbatim>\<open>MaxTimes(1)\<close> it replaces the declared upper bound by 100000000,
  against its own comment ("If AnyTimes or MaxTimes have not been called, MinTimes also
  sets the maximum number of calls to infinity").
\<close>

theorem C3_MinTimes_after_MaxTimes_1:
  "minCalls (MinTimes 2 (MaxTimes 1 sample_call)) = 2 \<and>
   maxCalls (MinTimes 2 (MaxTimes 1 sample_call)) = 100000000"
  by (simp add: sample_call_def MinTimes_def MaxTimes_def Let_def)

section \<open>Properties of the call counter\<close>

lemma call_expectation:
  "fst (snd (call asg ord c actual mem)) = c\<lparr>numCalls := numCalls c + 1\<rparr>"
  by (simp add: call_def Let_def split: sum.splits option.splits prod.splits)

lemma calls_expectation:
  "fst (calls asg invs c mem) = c\<lparr>numCalls := numCalls c + of_nat (length invs)\<rparr>"
proof (induction invs arbitrary: c mem)
  case Nil
  show ?case by simp
next
  case (Cons inv invs)
  obtain ord actual where inv: "inv = (ord, actual)" by (cases inv)
  obtain r c' mem' where step: "call asg ord c actual mem = (r, c', mem')"
    by (cases "call asg ord c actual mem")
  have c': "c' = c\<lparr>numCalls := numCalls c + 1\<rparr>"
    using call_expectation [of asg ord c actual mem] step by simp
  show ?case
    using Cons.IH [of c' mem'] by (simp add: inv step c' add.assoc)
qed

lemma sint_of_nat_small:
  "k < 2 ^ 63 \<Longrightarrow> sint (of_nat k :: goint) = int k"
  by (simp add: signed_of_nat signed_take_bit_int_eq_self)

lemma sint_succ:
  "(x :: goint) <s 9223372036854775807 \<Longrightarrow> sint (x + 1) = sint x + 1"
proof -
  assume "x <s 9223372036854775807"
  then have up: "sint x + 1 < 2 ^ 63" by (simp add: word_sless_alt)
  have lo: "- (2 ^ 63) \<le> sint x" using sint_ge [of x] by simp
  show ?thesis using up lo
    by (simp add: sint_word_ariths signed_take_bit_int_eq_self)
qed

text \<open>
  Claim C4: \<^verbatim>\<open>Times(n)\<close> sets the bounds to \<open>[n, n]\<close> whatever they were; and on an
  expectation with no calls made, for a count \<open>k\<close> that an \<^verbatim>\<open>int\<close> holds, after
  \<^verbatim>\<open>Times(k)\<close> and \<open>k\<close> invocations of \<^verbatim>\<open>call\<close> (whatever their arguments and results)
  \<^verbatim>\<open>exhausted()\<close> is true, which is what the controller reads to reject a further
  attempt; after fewer than \<open>k\<close> invocations it is still false.
\<close>

theorem C4_Times_exhausted_after_n_calls:
  "minCalls (Times n c) = n \<and> maxCalls (Times n c) = n \<and>
   (\<forall>k invs. k < 2 ^ 63 \<and> numCalls c = 0 \<longrightarrow>
      (length invs = k \<longrightarrow> exhausted (fst (calls asg invs (Times (of_nat k) c) mem))) \<and>
      (length invs < k \<longrightarrow> \<not> exhausted (fst (calls asg invs (Times (of_nat k) c) mem))))"
proof -
  have bounds: "minCalls (Times n c) = n \<and> maxCalls (Times n c) = n"
    by (simp add: Times_def)
  have run: "\<And>k invs. numCalls c = 0 \<Longrightarrow>
      fst (calls asg invs (Times (of_nat k) c) mem)
        = c\<lparr>minCalls := of_nat k, maxCalls := of_nat k, numCalls := of_nat (length invs)\<rparr>"
    by (simp add: calls_expectation Times_def)
  have full: "\<And>k invs. numCalls c = 0 \<Longrightarrow> length invs = k \<Longrightarrow>
      exhausted (fst (calls asg invs (Times (of_nat k) c) mem))"
    by (simp add: run exhausted_def)
  have part: "\<And>k invs. k < 2 ^ 63 \<Longrightarrow> numCalls c = 0 \<Longrightarrow> length invs < k \<Longrightarrow>
      \<not> exhausted (fst (calls asg invs (Times (of_nat k) c) mem))"
  proof -
    fix k :: nat and invs :: "(goint list \<times> gval list) list"
    assume k: "k < 2 ^ 63" and zero: "numCalls c = 0" and less: "length invs < k"
    have "length invs < 2 ^ 63" using k less by simp
    then have "sint (of_nat (length invs) :: goint) = int (length invs)"
      by (rule sint_of_nat_small)
    moreover have "sint (of_nat k :: goint) = int k"
      using k by (rule sint_of_nat_small)
    ultimately show "\<not> exhausted (fst (calls asg invs (Times (of_nat k) c) mem))"
      using less by (simp add: run [OF zero] exhausted_def word_sle_eq)
  qed
  show ?thesis using bounds full part by blast
qed

theorem C4_Times_exhausted_after_n_calls_witness:
  "(2::nat) < 2 ^ 63 \<and> numCalls sample_call = 0 \<and>
   \<not> exhausted (fst (calls (\<lambda>a b. False) [([], [])] (Times 2 sample_call) (\<lambda>a. GoNil))) \<and>
   exhausted (fst (calls (\<lambda>a b. False) [([], []), ([], [])] (Times 2 sample_call) (\<lambda>a. GoNil)))"
  using C4_Times_exhausted_after_n_calls
          [of 2 sample_call "\<lambda>a b. False" "\<lambda>a. GoNil",
           THEN conjunct2, THEN conjunct2, rule_format, of 2 "[([], []), ([], [])]"]
        C4_Times_exhausted_after_n_calls
          [of 2 sample_call "\<lambda>a b. False" "\<lambda>a. GoNil",
           THEN conjunct2, THEN conjunct2, rule_format, of 2 "[([], [])]"]
  by (simp add: sample_call_def)

text \<open>
  Claim C10: \<^verbatim>\<open>call\<close> adds exactly one to \<open>numCalls\<close> and changes no other field,
  whatever else happens in it; it does not read \<open>maxCalls\<close> (with another \<open>maxCalls\<close> it
  does the same); so on an exhausted expectation (whose counter is below the largest
  \<^verbatim>\<open>int\<close>) it leaves \<open>numCalls\<close> above \<open>maxCalls\<close>.
\<close>

theorem C10_call_increments_unconditionally:
  "fst (snd (call asg ord c actual mem)) = c\<lparr>numCalls := numCalls c + 1\<rparr> \<and>
   call asg ord (c\<lparr>maxCalls := m\<rparr>) actual mem
     = (case call asg ord c actual mem of (r, c', mem') \<Rightarrow> (r, c'\<lparr>maxCalls := m\<rparr>, mem')) \<and>
   (exhausted c \<and> numCalls c <s 9223372036854775807 \<longrightarrow>
      maxCalls (fst (snd (call asg ord c actual mem)))
        <s numCalls (fst (snd (call asg ord c actual mem))))"
proof -
  have indep: "call asg ord (c\<lparr>maxCalls := m\<rparr>) actual mem
     = (case call asg ord c actual mem of (r, c', mem') \<Rightarrow> (r, c'\<lparr>maxCalls := m\<rparr>, mem'))"
    by (simp add: call_def Let_def split: sum.splits option.splits prod.splits)
  have exceed: "exhausted c \<Longrightarrow> numCalls c <s 9223372036854775807 \<Longrightarrow>
      maxCalls (fst (snd (call asg ord c actual mem)))
        <s numCalls (fst (snd (call asg ord c actual mem)))"
    using sint_succ [of "numCalls c"]
    by (simp add: call_expectation exhausted_def word_sle_eq word_sless_alt)
  show ?thesis using call_expectation indep exceed by blast
qed

theorem C10_call_increments_unconditionally_witness:
  "exhausted (sample_call\<lparr>numCalls := 1\<rparr>) \<and>
   numCalls (sample_call\<lparr>numCalls := 1\<rparr>) <s 9223372036854775807 \<and>
   numCalls (fst (snd (call (\<lambda>a b. False) [] (sample_call\<lparr>numCalls := 1\<rparr>) [] (\<lambda>a. GoNil)))) = 2 \<and>
   maxCalls (fst (snd (call (\<lambda>a b. False) [] (sample_call\<lparr>numCalls := 1\<rparr>) [] (\<lambda>a. GoNil)))) = 1 \<and>
   maxCalls (fst (snd (call (\<lambda>a b. False) [] (sample_call\<lparr>numCalls := 1\<rparr>) [] (\<lambda>a. GoNil))))
     <s numCalls (fst (snd (call (\<lambda>a b. False) [] (sample_call\<lparr>numCalls := 1\<rparr>) [] (\<lambda>a. GoNil))))"
  using C10_call_increments_unconditionally
          [of "\<lambda>a b. False" "[]" "sample_call\<lparr>numCalls := 1\<rparr>" "[]" "\<lambda>a. GoNil" 1]
  by (simp add: sample_call_def exhausted_def word_sle_eq word_sless_alt)

section \<open>Properties of matching\<close>

lemma matchArgs_ok:
  "i + length ms \<le> length actual \<Longrightarrow> \<forall>j<length ms. (ms ! j) (actual ! (i + j)) \<Longrightarrow>
   matchArgs i ms actual = Inr None"
proof (induction ms arbitrary: i)
  case Nil
  show ?case by simp
next
  case (Cons m ms)
  have head: "m (actual ! i)" using Cons.prems(2) by force
  have tail: "\<forall>j<length ms. (ms ! j) (actual ! (Suc i + j))"
    using Cons.prems(2) by force
  have "matchArgs (Suc i) ms actual = Inr None"
    using Cons.IH [of "Suc i"] Cons.prems(1) tail by simp
  then show ?case using head Cons.prems(1) by simp
qed

lemma matchArgs_first_mismatch:
  "i + length ms \<le> length actual \<Longrightarrow> k < length ms \<Longrightarrow> \<not> (ms ! k) (actual ! (i + k)) \<Longrightarrow>
   \<forall>j<k. (ms ! j) (actual ! (i + j)) \<Longrightarrow> matchArgs i ms actual = Inr (Some (i + k))"
proof (induction ms arbitrary: i k)
  case Nil
  then show ?case by simp
next
  case (Cons m ms)
  show ?case
  proof (cases k)
    case 0
    then show ?thesis using Cons.prems by simp
  next
    case (Suc k')
    have head: "m (actual ! i)" using Cons.prems(4) Suc by force
    have tail: "\<forall>j<k'. (ms ! j) (actual ! (Suc i + j))"
      using Cons.prems(4) Suc by force
    have "matchArgs (Suc i) ms actual = Inr (Some (Suc i + k'))"
      using Cons.IH [of "Suc i" k'] Cons.prems(1,2,3) tail Suc by simp
    then show ?thesis using head Cons.prems(1) Suc by simp
  qed
qed

lemma matchArgs_None_D:
  "matchArgs i ms actual = Inr None \<Longrightarrow> j < length ms \<Longrightarrow> (ms ! j) (actual ! (i + j))"
proof (induction ms arbitrary: i j)
  case Nil
  then show ?case by simp
next
  case (Cons m ms)
  from Cons.prems(1) have head: "m (actual ! i)" and rest: "matchArgs (Suc i) ms actual = Inr None"
    by (auto split: if_splits)
  show ?case
  proof (cases j)
    case 0
    then show ?thesis using head by simp
  next
    case (Suc j')
    then show ?thesis using Cons.IH [OF rest, of j'] Cons.prems(2) by simp
  qed
qed

lemma checkPreReqs_ok:
  "\<forall>p \<in> set ps. p < length s \<and> satisfied (s ! p) \<Longrightarrow> checkPreReqs s ps = Inr None"
  by (induction ps) auto

lemma checkPreReqs_first_unsatisfied:
  "\<forall>q \<in> set pre. q < length s \<and> satisfied (s ! q) \<Longrightarrow> p < length s \<Longrightarrow> \<not> satisfied (s ! p) \<Longrightarrow>
   checkPreReqs s (pre @ p # post) = Inr (Some p)"
  by (induction pre) auto

lemma checkPreReqs_None_D:
  "checkPreReqs s ps = Inr None \<Longrightarrow> p \<in> set ps \<Longrightarrow> satisfied (s ! p)"
  by (induction ps) (auto split: if_splits)

text \<open>
  Claim C2: for an expectation of the store whose prerequisites are expectations of the
  store, \<^verbatim>\<open>matches\<close> returns nil exactly when the number of actual arguments is the
  number of matchers, every matcher accepts the argument at its position and every
  prerequisite is satisfied. Otherwise it returns the error of the first check that
  fails, in this order: the number of arguments (whatever the arguments are), the first
  position whose matcher rejects, the first prerequisite that is not satisfied.
\<close>

theorem C2_matches_checks_in_order:
  assumes c: "c < length s" and valid: "\<forall>p \<in> set (preReqs (s ! c)). p < length s"
  shows "(fst (matches s c actual) = Inr None \<longleftrightarrow>
            length actual = length (args (s ! c)) \<and>
            (\<forall>i<length actual. (args (s ! c) ! i) (actual ! i)) \<and>
            (\<forall>p \<in> set (preReqs (s ! c)). satisfied (s ! p))) \<and>
         (length actual \<noteq> length (args (s ! c)) \<longrightarrow>
            fst (matches s c actual)
              = Inr (Some (InvalidNumberOfArguments (length actual) (length (args (s ! c)))))) \<and>
         (\<forall>i. length actual = length (args (s ! c)) \<and> i < length actual \<and>
              \<not> (args (s ! c) ! i) (actual ! i) \<and> (\<forall>j<i. (args (s ! c) ! j) (actual ! j)) \<longrightarrow>
              fst (matches s c actual) = Inr (Some (ArgumentDidNotMatch i))) \<and>
         (\<forall>pre p post. length actual = length (args (s ! c)) \<and>
              (\<forall>i<length actual. (args (s ! c) ! i) (actual ! i)) \<and>
              preReqs (s ! c) = pre @ p # post \<and> (\<forall>q \<in> set pre. satisfied (s ! q)) \<and>
              \<not> satisfied (s ! p) \<longrightarrow>
              fst (matches s c actual) = Inr (Some (PrerequisiteNotSatisfied p)))"
proof -
  let ?ms = "args (s ! c)" and ?ps = "preReqs (s ! c)"
  have count: "length actual \<noteq> length ?ms \<Longrightarrow>
      fst (matches s c actual) = Inr (Some (InvalidNumberOfArguments (length actual) (length ?ms)))"
    using c by (simp add: matches_def)
  have arg: "\<And>i. length actual = length ?ms \<Longrightarrow> i < length actual \<Longrightarrow>
      \<not> (?ms ! i) (actual ! i) \<Longrightarrow> \<forall>j<i. (?ms ! j) (actual ! j) \<Longrightarrow>
      fst (matches s c actual) = Inr (Some (ArgumentDidNotMatch i))"
  proof -
    fix i
    assume len: "length actual = length ?ms" and i: "i < length actual"
      and no: "\<not> (?ms ! i) (actual ! i)" and before: "\<forall>j<i. (?ms ! j) (actual ! j)"
    have "matchArgs 0 ?ms actual = Inr (Some (0 + i))"
      using len i no before by (intro matchArgs_first_mismatch) simp_all
    then show "fst (matches s c actual) = Inr (Some (ArgumentDidNotMatch i))"
      using c len by (simp add: matches_def)
  qed
  have pre: "\<And>pre p post. length actual = length ?ms \<Longrightarrow>
      \<forall>i<length actual. (?ms ! i) (actual ! i) \<Longrightarrow> ?ps = pre @ p # post \<Longrightarrow>
      \<forall>q \<in> set pre. satisfied (s ! q) \<Longrightarrow> \<not> satisfied (s ! p) \<Longrightarrow>
      fst (matches s c actual) = Inr (Some (PrerequisiteNotSatisfied p))"
  proof -
    fix pre p post
    assume len: "length actual = length ?ms" and all: "\<forall>i<length actual. (?ms ! i) (actual ! i)"
      and split: "?ps = pre @ p # post" and sat: "\<forall>q \<in> set pre. satisfied (s ! q)"
      and unsat: "\<not> satisfied (s ! p)"
    have m: "matchArgs 0 ?ms actual = Inr None"
      using len all by (intro matchArgs_ok) simp_all
    have "checkPreReqs s (pre @ p # post) = Inr (Some p)"
      using valid split sat unsat by (intro checkPreReqs_first_unsatisfied) simp_all
    then show "fst (matches s c actual) = Inr (Some (PrerequisiteNotSatisfied p))"
      using c len m split by (simp add: matches_def)
  qed
  have ok: "length actual = length ?ms \<Longrightarrow> \<forall>i<length actual. (?ms ! i) (actual ! i) \<Longrightarrow>
      \<forall>p \<in> set ?ps. satisfied (s ! p) \<Longrightarrow> fst (matches s c actual) = Inr None"
  proof -
    assume len: "length actual = length ?ms" and all: "\<forall>i<length actual. (?ms ! i) (actual ! i)"
      and sat: "\<forall>p \<in> set ?ps. satisfied (s ! p)"
    have m: "matchArgs 0 ?ms actual = Inr None"
      using len all by (intro matchArgs_ok) simp_all
    have "checkPreReqs s ?ps = Inr None"
      using valid sat by (intro checkPreReqs_ok) simp
    then show "fst (matches s c actual) = Inr None"
      using c len m by (simp add: matches_def)
  qed
  have only: "fst (matches s c actual) = Inr None \<Longrightarrow>
      length actual = length ?ms \<and> (\<forall>i<length actual. (?ms ! i) (actual ! i)) \<and>
      (\<forall>p \<in> set ?ps. satisfied (s ! p))"
  proof -
    assume nil: "fst (matches s c actual) = Inr None"
    have len: "length actual = length ?ms"
      using nil count by fastforce
    have m: "matchArgs 0 ?ms actual = Inr None"
      using nil c len by (simp add: matches_def split: sum.splits option.splits)
    have p: "checkPreReqs s ?ps = Inr None"
      using nil c len m by (simp add: matches_def split: sum.splits option.splits)
    have "\<forall>i<length actual. (?ms ! i) (actual ! i)"
      using matchArgs_None_D [OF m] len by simp
    moreover have "\<forall>p \<in> set ?ps. satisfied (s ! p)"
      using checkPreReqs_None_D [OF p] by simp
    ultimately show ?thesis using len by simp
  qed
  show ?thesis using count arg pre ok only by blast
qed

theorem C2_matches_checks_in_order_witness:
  "(1::nat) < length sample_store \<and>
   fst (matches sample_store 1
          [Val (Named ''string'' StringT) (Data 1), Val (PtrTo (Named ''int'' IntT)) (Addr 7)])
     = Inr (Some (PrerequisiteNotSatisfied 0)) \<and>
   fst (matches (sample_store[0 := sample_call\<lparr>numCalls := 1\<rparr>]) 1
          [Val (Named ''string'' StringT) (Data 1), Val (PtrTo (Named ''int'' IntT)) (Addr 7)])
     = Inr None \<and>
   fst (matches sample_store 1 [Val (Named ''string'' StringT) (Data 2), GoNil])
     = Inr (Some (ArgumentDidNotMatch 0)) \<and>
   fst (matches sample_store 1 []) = Inr (Some (InvalidNumberOfArguments 0 2))"
proof -
  let ?actual = "[Val (Named ''string'' StringT) (Data 1), Val (PtrTo (Named ''int'' IntT)) (Addr 7)]"
  let ?s1 = "sample_store[0 := sample_call\<lparr>numCalls := 1\<rparr>]"
  have c: "(1::nat) < length sample_store" "(1::nat) < length ?s1"
    by (simp_all add: sample_store_def)
  have v: "\<forall>p \<in> set (preReqs (sample_store ! 1)). p < length sample_store"
          "\<forall>p \<in> set (preReqs (?s1 ! 1)). p < length ?s1"
    by (simp_all add: sample_store_def)
  have len: "length ?actual = length (args (?s1 ! 1))"
    by (simp add: sample_store_def sample_call_def)
  have all: "\<forall>i<length ?actual. (args (?s1 ! 1) ! i) (?actual ! i)"
    by (simp add: sample_store_def sample_call_def less_Suc_eq numeral_2_eq_2)
  have sat: "\<forall>p \<in> set (preReqs (?s1 ! 1)). satisfied (?s1 ! p)"
    by (simp add: sample_store_def sample_call_def satisfied_def)
  have nil: "fst (matches ?s1 1 ?actual) = Inr None"
    using C2_matches_checks_in_order [OF c(2) v(2), of ?actual, THEN conjunct1] len all sat
    by blast
  have pre: "fst (matches sample_store 1 ?actual) = Inr (Some (PrerequisiteNotSatisfied 0))"
    using C2_matches_checks_in_order [OF c(1) v(1), of ?actual,
            THEN conjunct2, THEN conjunct2, THEN conjunct2, rule_format, of "[]" 0 "[]"]
    by (simp add: sample_store_def sample_call_def satisfied_def word_sle_eq less_Suc_eq numeral_2_eq_2)
  have arg: "fst (matches sample_store 1 [Val (Named ''string'' StringT) (Data 2), GoNil])
     = Inr (Some (ArgumentDidNotMatch 0))"
    using C2_matches_checks_in_order [OF c(1) v(1),
            of "[Val (Named ''string'' StringT) (Data 2), GoNil]",
            THEN conjunct2, THEN conjunct2, THEN conjunct1, rule_format, of 0]
    by (simp add: sample_store_def sample_call_def)
  have cnt: "fst (matches sample_store 1 []) = Inr (Some (InvalidNumberOfArguments 0 2))"
    using C2_matches_checks_in_order [OF c(1) v(1), of "[]", THEN conjunct2, THEN conjunct1]
    by (simp add: sample_store_def sample_call_def)
  show ?thesis using c(1) pre nil arg cnt by simp
qed

text \<open>
  Claim C9: \<^verbatim>\<open>matches\<close> changes nothing. Whatever it returns (nil, an error, a panic),
  the store of expectations, and so every field of every expectation, is as before.
\<close>

theorem C9_matches_leaves_store:
  "snd (matches s c actual) = s"
  by (simp add: matches_def split: sum.splits option.splits)

section \<open>Properties of the prerequisite relation\<close>

lemma finite_edges: "finite (edges s)"
proof -
  have "edges s = (\<Union>c\<in>{..<length s}. (\<lambda>p. (c, p)) ` set (preReqs (s ! c)))"
    by (auto simp: edges_def)
  then show ?thesis by simp
qed

lemma isPreReq_loop_Nil: "isPreReq_loop s [] other = Some (Inr False)"
  by (subst isPreReq_loop.simps) simp

lemma isPreReq_loop_Cons:
  "isPreReq_loop s (p # ps) other =
     (if other = p then Some (Inr True)
      else if length s \<le> p then Some (Inl NilDereference)
      else Option.bind (isPreReq_loop s (preReqs (s ! p)) other)
             (\<lambda>r. case r of
                     Inl e \<Rightarrow> Some (Inl e)
                   | Inr b \<Rightarrow> if b then Some (Inr True) else isPreReq_loop s ps other))"
  by (subst isPreReq_loop.simps) simp

lemma isPreReq_loop_list:
  assumes "\<And>p. p \<in> set prs \<Longrightarrow> p < length s \<Longrightarrow> node_ok s other p"
  shows "\<exists>r. isPreReq_loop s prs other = Some r \<and>
             (\<forall>b. r = Inr b \<longrightarrow> b = (\<exists>p \<in> set prs. other = p \<or> (p, other) \<in> (edges s)\<^sup>+)) \<and>
             (no_nil_preReqs s \<and> (\<forall>p \<in> set prs. p < length s) \<longrightarrow> (\<exists>b. r = Inr b))"
  using assms
proof (induction prs)
  case Nil
  show ?case by (auto simp: isPreReq_loop_Nil)
next
  case (Cons p ps)
  have IH: "\<exists>r. isPreReq_loop s ps other = Some r \<and>
             (\<forall>b. r = Inr b \<longrightarrow> b = (\<exists>p \<in> set ps. other = p \<or> (p, other) \<in> (edges s)\<^sup>+)) \<and>
             (no_nil_preReqs s \<and> (\<forall>p \<in> set ps. p < length s) \<longrightarrow> (\<exists>b. r = Inr b))"
    using Cons.IH Cons.prems by simp
  show ?case
  proof (cases "other = p")
    case True
    then show ?thesis by (auto simp: isPreReq_loop_Cons)
  next
    case neq: False
    show ?thesis
    proof (cases "length s \<le> p")
      case True
      then show ?thesis using neq by (simp add: isPreReq_loop_Cons)
    next
      case False
      then have "node_ok s other p" using Cons.prems by simp
      then obtain r where r: "isPreReq_loop s (preReqs (s ! p)) other = Some r"
        and rb: "\<And>b. r = Inr b \<Longrightarrow> b = ((p, other) \<in> (edges s)\<^sup>+)"
        and rn: "no_nil_preReqs s \<Longrightarrow> \<exists>b. r = Inr b"
        unfolding node_ok_def by blast
      show ?thesis
      proof (cases r)
        case (Inl e)
        then show ?thesis using neq False r rn
          by (auto simp: isPreReq_loop_Cons)
      next
        case (Inr b)
        show ?thesis
        proof (cases b)
          case True
          then have "(p, other) \<in> (edges s)\<^sup>+" using rb Inr by simp
          then show ?thesis using neq False r Inr True
            by (auto simp: isPreReq_loop_Cons)
        next
          case nb: False
          then have "(p, other) \<notin> (edges s)\<^sup>+" using rb Inr by simp
          then show ?thesis using neq False r Inr nb IH
            by (auto simp: isPreReq_loop_Cons)
        qed
      qed
    qed
  qed
qed

lemma trancl_edges_step:
  "(c, other) \<in> (edges s)\<^sup>+ \<longleftrightarrow>
   c < length s \<and> (\<exists>p \<in> set (preReqs (s ! c)). other = p \<or> (p, other) \<in> (edges s)\<^sup>+)"
proof
  assume "(c, other) \<in> (edges s)\<^sup>+"
  then show "c < length s \<and> (\<exists>p \<in> set (preReqs (s ! c)). other = p \<or> (p, other) \<in> (edges s)\<^sup>+)"
    by (cases rule: converse_tranclE) (auto simp: edges_def)
next
  assume "c < length s \<and> (\<exists>p \<in> set (preReqs (s ! c)). other = p \<or> (p, other) \<in> (edges s)\<^sup>+)"
  then obtain p where c: "c < length s" and p: "p \<in> set (preReqs (s ! c))"
    and reach: "other = p \<or> (p, other) \<in> (edges s)\<^sup>+" by blast
  have "(c, p) \<in> edges s" using c p by (simp add: edges_def)
  then show "(c, other) \<in> (edges s)\<^sup>+" using reach by (auto intro: trancl_into_trancl2)
qed

lemma node_ok_all:
  assumes "acyclic (edges s)"
  shows "p < length s \<Longrightarrow> node_ok s other p"
proof -
  have wf: "wf ((edges s)\<inverse>)"
    using finite_edges assms by (rule finite_acyclic_wf_converse)
  show "p < length s \<Longrightarrow> node_ok s other p"
  proof (induction p rule: wf_induct_rule [OF wf])
    case (1 p)
    have sub: "\<And>q. q \<in> set (preReqs (s ! p)) \<Longrightarrow> q < length s \<Longrightarrow> node_ok s other q"
    proof -
      fix q assume q: "q \<in> set (preReqs (s ! p))" and v: "q < length s"
      have "(q, p) \<in> (edges s)\<inverse>" using q "1.prems" by (simp add: edges_def)
      then show "node_ok s other q" using "1.IH" v by blast
    qed
    obtain r where r: "isPreReq_loop s (preReqs (s ! p)) other = Some r"
      and rb: "\<And>b. r = Inr b \<Longrightarrow> b = (\<exists>q \<in> set (preReqs (s ! p)). other = q \<or> (q, other) \<in> (edges s)\<^sup>+)"
      and rn: "no_nil_preReqs s \<and> (\<forall>q \<in> set (preReqs (s ! p)). q < length s) \<Longrightarrow> \<exists>b. r = Inr b"
      using isPreReq_loop_list [of "preReqs (s ! p)" s other, OF sub] by blast
    have valid: "no_nil_preReqs s \<Longrightarrow> \<forall>q \<in> set (preReqs (s ! p)). q < length s"
      using "1.prems" by (simp add: no_nil_preReqs_def)
    show ?case
      unfolding node_ok_def
      using r rb rn valid trancl_edges_step [of p other s] "1.prems" by auto
  qed
qed

lemma isPreReq_result:
  assumes "acyclic (edges s)"
  shows "\<exists>r. isPreReq s c other = Some r \<and>
             (\<forall>b. r = Inr b \<longrightarrow> c < length s \<and> b = ((c, other) \<in> (edges s)\<^sup>+)) \<and>
             (no_nil_preReqs s \<and> c < length s \<longrightarrow> (\<exists>b. r = Inr b))"
proof (cases "c < length s")
  case True
  then show ?thesis
    using node_ok_all [OF assms True, of other]
    by (auto simp: isPreReq_def node_ok_def)
next
  case False
  then show ?thesis by (simp add: isPreReq_def)
qed

lemma edges_After:
  assumes "c < length s"
  shows "edges (s[c := (s ! c)\<lparr>preReqs := preReqs (s ! c) @ [p]\<rparr>]) = insert (c, p) (edges s)"
  using assms by (auto simp: edges_def nth_list_update split: if_splits)

lemma no_nil_After:
  assumes "no_nil_preReqs s" and "c < length s" and "p < length s"
  shows "no_nil_preReqs (s[c := (s ! c)\<lparr>preReqs := preReqs (s ! c) @ [p]\<rparr>])"
  using assms by (auto simp: no_nil_preReqs_def nth_list_update)

text \<open>
  Claim C5: on a store whose prerequisite relation is acyclic, \<^verbatim>\<open>After\<close> with the
  expectation itself takes the fatal path and leaves the store as it is; so does
  \<^verbatim>\<open>After(preReq)\<close> when \<open>preReq\<close> already depends on the expectation, directly or
  through others (the store having no nil prerequisite); and every \<^verbatim>\<open>After\<close> returns,
  leaves the store as it is unless it returns normally, then adds exactly the edge to
  \<open>preReq\<close>, which closes no cycle, and leaves the relation acyclic.
\<close>

theorem C5_After_rejects_cycles:
  assumes acyc: "acyclic (edges s)"
  shows "(c < length s \<longrightarrow> After s c c = Some (Some (Fatal OwnPrerequisite), s)) \<and>
         (no_nil_preReqs s \<and> c < length s \<and> p < length s \<and> (p, c) \<in> (edges s)\<^sup>+ \<longrightarrow>
            After s c p = Some (Some (Fatal LoopInCallOrder), s)) \<and>
         (\<exists>r s'. After s c p = Some (r, s') \<and>
            (r \<noteq> None \<longrightarrow> s' = s) \<and>
            (r = None \<longrightarrow> c \<noteq> p \<and> (p, c) \<notin> (edges s)\<^sup>+ \<and> edges s' = insert (c, p) (edges s)) \<and>
            acyclic (edges s') \<and>
            (no_nil_preReqs s \<longrightarrow> no_nil_preReqs s'))"
proof -
  obtain r where r: "isPreReq s p c = Some r"
    and rb: "\<And>b. r = Inr b \<Longrightarrow> p < length s \<and> b = ((p, c) \<in> (edges s)\<^sup>+)"
    and rn: "no_nil_preReqs s \<and> p < length s \<Longrightarrow> \<exists>b. r = Inr b"
    using isPreReq_result [OF acyc, of p c] by blast
  have own: "c < length s \<Longrightarrow> After s c c = Some (Some (Fatal OwnPrerequisite), s)"
    by (simp add: After_def)
  have loop: "no_nil_preReqs s \<Longrightarrow> c < length s \<Longrightarrow> p < length s \<Longrightarrow> (p, c) \<in> (edges s)\<^sup>+ \<Longrightarrow>
      After s c p = Some (Some (Fatal LoopInCallOrder), s)"
  proof -
    assume nn: "no_nil_preReqs s" and c: "c < length s" and p: "p < length s"
      and dep: "(p, c) \<in> (edges s)\<^sup>+"
    have "c \<noteq> p" using dep acyc by (auto simp: acyclic_def)
    moreover obtain b where "r = Inr b" using rn nn p by blast
    moreover from this have "b" using rb dep by simp
    ultimately show ?thesis using r c by (simp add: After_def)
  qed
  have inv: "\<exists>r s'. After s c p = Some (r, s') \<and>
            (r \<noteq> None \<longrightarrow> s' = s) \<and>
            (r = None \<longrightarrow> c \<noteq> p \<and> (p, c) \<notin> (edges s)\<^sup>+ \<and> edges s' = insert (c, p) (edges s)) \<and>
            acyclic (edges s') \<and>
            (no_nil_preReqs s \<longrightarrow> no_nil_preReqs s')"
  proof (cases "c = p")
    case True
    then show ?thesis using acyc by (simp add: After_def)
  next
    case neq: False
    show ?thesis
    proof (cases r)
      case (Inl e)
      then show ?thesis using neq r acyc by (simp add: After_def)
    next
      case (Inr b)
      have p: "p < length s" and b: "b = ((p, c) \<in> (edges s)\<^sup>+)" using rb [OF Inr] by simp_all
      show ?thesis
      proof (cases "c < length s \<and> \<not> b")
        case False
        then show ?thesis using neq r Inr acyc by (auto simp: After_def)
      next
        case True
        let ?s' = "s[c := (s ! c)\<lparr>preReqs := preReqs (s ! c) @ [p]\<rparr>]"
        have res: "After s c p = Some (None, ?s')"
          using neq r Inr True by (simp add: After_def)
        have e: "edges ?s' = insert (c, p) (edges s)"
          using True by (simp add: edges_After)
        have "(p, c) \<notin> (edges s)\<^sup>*"
          using True b neq by (auto simp: rtrancl_eq_or_trancl)
        then have "acyclic (edges ?s')"
          using acyc e by (simp add: acyclic_insert)
        moreover have "no_nil_preReqs s \<Longrightarrow> no_nil_preReqs ?s'"
          using True p by (simp add: no_nil_After)
        ultimately show ?thesis using res e True b neq by simp
      qed
    qed
  qed
  show ?thesis using own loop inv by blast
qed

theorem C5_After_rejects_cycles_witness:
  "acyclic (edges sample_store) \<and> no_nil_preReqs sample_store \<and>
   (1, 0) \<in> (edges sample_store)\<^sup>+ \<and>
   After sample_store 0 0 = Some (Some (Fatal OwnPrerequisite), sample_store) \<and>
   After sample_store 0 1 = Some (Some (Fatal LoopInCallOrder), sample_store) \<and>
   acyclic (edges [sample_call, sample_call]) \<and>
   After [sample_call, sample_call] 1 0 = Some (None, [sample_call, sample_call\<lparr>preReqs := [0]\<rparr>]) \<and>
   acyclic (edges [sample_call, sample_call\<lparr>preReqs := [0]\<rparr>])"
proof -
  have e: "edges sample_store = {(1, 0)}"
    by (auto simp: edges_def sample_store_def sample_call_def less_Suc_eq nth_Cons')
  have empty: "acyclic ({} :: (nat \<times> nat) set)"
    by (simp add: wf_acyclic)
  have a: "acyclic (edges sample_store)"
    by (simp add: e empty)
  have n: "no_nil_preReqs sample_store"
    by (auto simp: no_nil_preReqs_def sample_store_def sample_call_def less_Suc_eq nth_Cons')
  have d: "(1, 0) \<in> (edges sample_store)\<^sup>+"
    unfolding e by (rule r_into_trancl) simp
  have own: "After sample_store 0 0 = Some (Some (Fatal OwnPrerequisite), sample_store)"
    using C5_After_rejects_cycles [OF a, of 0 0, THEN conjunct1]
    by (simp add: sample_store_def)
  have cyc: "After sample_store 0 1 = Some (Some (Fatal LoopInCallOrder), sample_store)"
    using C5_After_rejects_cycles [OF a, of 0 1, THEN conjunct2, THEN conjunct1] n d
    by (simp add: sample_store_def)
  have e0: "edges [sample_call, sample_call] = {}"
    by (auto simp: edges_def sample_call_def less_Suc_eq nth_Cons')
  have a0: "acyclic (edges [sample_call, sample_call])"
    by (simp add: e0 empty)
  have run: "After [sample_call, sample_call] 1 0
               = Some (None, [sample_call, sample_call\<lparr>preReqs := [0]\<rparr>])"
    by (simp add: After_def isPreReq_def isPreReq_loop_Nil sample_call_def)
  have a1: "acyclic (edges [sample_call, sample_call\<lparr>preReqs := [0]\<rparr>])"
    using C5_After_rejects_cycles [OF a0, of 1 0, THEN conjunct2, THEN conjunct2] run
    by auto
  show ?thesis using a n d own cyc a0 run a1 by simp
qed

section \<open>Properties of the return values\<close>

lemma Return_loop_Inr_nil:
  "Return_loop asg mt k vals = Inr vs \<Longrightarrow> j < length vals \<Longrightarrow> vals ! j = GoNil \<Longrightarrow>
   \<exists>want. Out mt (k + j) = Some want \<and> nillable (Kind want)"
proof (induction vals arbitrary: k j vs)
  case Nil
  then show ?case by simp
next
  case (Cons ret rest)
  from Cons.prems(1) obtain want v vs' where want: "Out mt k = Some want"
    and rest: "Return_loop asg mt (Suc k) rest = Inr vs'"
    and head: "(case ret of
                   GoNil \<Rightarrow> if nillable (Kind want) then Inr ret else Inl (Fatal (NilNotNillable k))
                 | Val got r \<Rightarrow>
                     if got = want then Inr ret
                     else if AssignableTo asg got want then Inr (stored want got r)
                     else Inl (Fatal (WrongReturnType k))) = Inr v"
    by (auto split: option.splits sum.splits)
  show ?case
  proof (cases j)
    case 0
    then have "ret = GoNil" using Cons.prems(3) by simp
    then show ?thesis using head want 0 by (auto split: if_splits)
  next
    case (Suc j')
    then show ?thesis using Cons.IH [OF rest, of j'] Cons.prems(2,3) by simp
  qed
qed

lemma Return_loop_nil_fatal:
  "Outs mt = Some outs \<Longrightarrow> k + length vals \<le> length outs \<Longrightarrow> j < length vals \<Longrightarrow>
   vals ! j = GoNil \<Longrightarrow> \<not> nillable (Kind (outs ! (k + j))) \<Longrightarrow>
   \<exists>j'\<le>j. Return_loop asg mt k vals = Inl (Fatal (NilNotNillable (k + j'))) \<or>
           Return_loop asg mt k vals = Inl (Fatal (WrongReturnType (k + j')))"
proof (induction vals arbitrary: k j)
  case Nil
  then show ?case by simp
next
  case (Cons ret rest)
  have want: "Out mt k = Some (outs ! k)"
    using Cons.prems(1,2) by (simp add: Out_def)
  show ?case
  proof (cases j)
    case 0
    then have "ret = GoNil" using Cons.prems(4) by simp
    then have "Return_loop asg mt k (ret # rest) = Inl (Fatal (NilNotNillable (k + 0)))"
      using want Cons.prems(5) 0 by simp
    then show ?thesis by blast
  next
    case (Suc j')
    have "\<exists>i\<le>j'. Return_loop asg mt (Suc k) rest = Inl (Fatal (NilNotNillable (Suc k + i))) \<or>
            Return_loop asg mt (Suc k) rest = Inl (Fatal (WrongReturnType (Suc k + i)))"
      using Cons.IH [of "Suc k" j'] Cons.prems Suc by simp
    then obtain i where i: "i \<le> j'"
      and r: "Return_loop asg mt (Suc k) rest = Inl (Fatal (NilNotNillable (Suc k + i))) \<or>
            Return_loop asg mt (Suc k) rest = Inl (Fatal (WrongReturnType (Suc k + i)))"
      by blast
    have "Return_loop asg mt k (ret # rest) = Inl (Fatal (NilNotNillable (k + 0))) \<or>
          Return_loop asg mt k (ret # rest) = Inl (Fatal (WrongReturnType (k + 0))) \<or>
          Return_loop asg mt k (ret # rest) = Inl (Fatal (NilNotNillable (k + Suc i))) \<or>
          Return_loop asg mt k (ret # rest) = Inl (Fatal (WrongReturnType (k + Suc i)))"
      using want r by (cases ret) auto
    moreover have "0 \<le> j" "Suc i \<le> j" using i Suc by simp_all
    ultimately show ?thesis by blast
  qed
qed

lemma Return_loop_first_nil:
  "Outs mt = Some outs \<Longrightarrow> k + length vals \<le> length outs \<Longrightarrow> j < length vals \<Longrightarrow>
   vals ! j = GoNil \<Longrightarrow> \<not> nillable (Kind (outs ! (k + j))) \<Longrightarrow>
   \<forall>i<j. TypeOf (vals ! i) = Some (outs ! (k + i)) \<Longrightarrow>
   Return_loop asg mt k vals = Inl (Fatal (NilNotNillable (k + j)))"
proof (induction vals arbitrary: k j)
  case Nil
  then show ?case by simp
next
  case (Cons ret rest)
  have want: "Out mt k = Some (outs ! k)"
    using Cons.prems(1,2) by (simp add: Out_def)
  show ?case
  proof (cases j)
    case 0
    then have "ret = GoNil" using Cons.prems(4) by simp
    then show ?thesis using want Cons.prems(5) 0 by simp
  next
    case (Suc j')
    have head: "TypeOf ret = Some (outs ! k)" using Cons.prems(6) Suc by force
    have tail: "\<forall>i<j'. TypeOf (rest ! i) = Some (outs ! (Suc k + i))"
      using Cons.prems(6) Suc by force
    have "Return_loop asg mt (Suc k) rest = Inl (Fatal (NilNotNillable (Suc k + j')))"
      using Cons.IH [of "Suc k" j'] Cons.prems(1-5) tail Suc by simp
    then show ?thesis using want head Suc by (cases ret) auto
  qed
qed

text \<open>
  Claim C6: when \<^verbatim>\<open>Return\<close> is given nil at some position, it returns normally only if
  the return slot at that position is of a nillable kind (channel, function, interface,
  map, pointer, slice). When the number of values is right and the slot's kind is not
  nillable, it takes a fatal path and leaves the expectation as it is: that of this
  position or of an earlier one, and the "is nil, but not nillable" one of this position
  when the earlier values have the types of their slots.
\<close>

theorem C6_Return_nil_needs_nillable:
  assumes "i < length (elems vals)" and "elems vals ! i = GoNil"
  shows "(\<forall>c'. Return asg vals c = (None, c') \<longrightarrow>
            (\<exists>want. Out (methodType c) i = Some want \<and> nillable (Kind want))) \<and>
         (\<forall>outs. Outs (methodType c) = Some outs \<and> length (elems vals) = length outs \<and>
                 \<not> nillable (Kind (outs ! i)) \<longrightarrow>
            (\<exists>j\<le>i. Return asg vals c = (Some (Fatal (NilNotNillable j)), c) \<or>
                    Return asg vals c = (Some (Fatal (WrongReturnType j)), c)) \<and>
            ((\<forall>j<i. TypeOf (elems vals ! j) = Some (outs ! j)) \<longrightarrow>
               Return asg vals c = (Some (Fatal (NilNotNillable i)), c)))"
proof -
  have ok: "\<And>c'. Return asg vals c = (None, c') \<Longrightarrow>
      \<exists>want. Out (methodType c) i = Some want \<and> nillable (Kind want)"
  proof -
    fix c' assume "Return asg vals c = (None, c')"
    then obtain vs where "Return_loop asg (methodType c) 0 (elems vals) = Inr vs"
      by (auto simp: Return_def split: option.splits if_splits sum.splits)
    from Return_loop_Inr_nil [OF this assms] show
      "\<exists>want. Out (methodType c) i = Some want \<and> nillable (Kind want)" by simp
  qed
  have bad: "\<And>outs. Outs (methodType c) = Some outs \<Longrightarrow> length (elems vals) = length outs \<Longrightarrow>
      \<not> nillable (Kind (outs ! i)) \<Longrightarrow>
      \<exists>j\<le>i. Return asg vals c = (Some (Fatal (NilNotNillable j)), c) \<or>
             Return asg vals c = (Some (Fatal (WrongReturnType j)), c)"
  proof -
    fix outs assume o: "Outs (methodType c) = Some outs" and l: "length (elems vals) = length outs"
      and n: "\<not> nillable (Kind (outs ! i))"
    have "\<exists>j\<le>i. Return_loop asg (methodType c) 0 (elems vals) = Inl (Fatal (NilNotNillable (0 + j))) \<or>
           Return_loop asg (methodType c) 0 (elems vals) = Inl (Fatal (WrongReturnType (0 + j)))"
      using Return_loop_nil_fatal [of "methodType c" outs 0 "elems vals" i asg] o l n assms
      by simp
    then show "\<exists>j\<le>i. Return asg vals c = (Some (Fatal (NilNotNillable j)), c) \<or>
             Return asg vals c = (Some (Fatal (WrongReturnType j)), c)"
      using o l by (auto simp: Return_def NumOut_def)
  qed
  have first: "\<And>outs. Outs (methodType c) = Some outs \<Longrightarrow> length (elems vals) = length outs \<Longrightarrow>
      \<not> nillable (Kind (outs ! i)) \<Longrightarrow> \<forall>j<i. TypeOf (elems vals ! j) = Some (outs ! j) \<Longrightarrow>
      Return asg vals c = (Some (Fatal (NilNotNillable i)), c)"
  proof -
    fix outs assume o: "Outs (methodType c) = Some outs" and l: "length (elems vals) = length outs"
      and n: "\<not> nillable (Kind (outs ! i))" and e: "\<forall>j<i. TypeOf (elems vals ! j) = Some (outs ! j)"
    have "Return_loop asg (methodType c) 0 (elems vals) = Inl (Fatal (NilNotNillable (0 + i)))"
      using Return_loop_first_nil [of "methodType c" outs 0 "elems vals" i asg] o l n e assms
      by simp
    then show "Return asg vals c = (Some (Fatal (NilNotNillable i)), c)"
      using o l by (simp add: Return_def NumOut_def)
  qed
  show ?thesis using ok bad first by blast
qed

theorem C6_Return_nil_needs_nillable_witness:
  "\<not> nillable (Kind (Named ''int'' IntT)) \<and> nillable (Kind (Named ''error'' InterfaceT)) \<and>
   Return (\<lambda>a b. False) (Some [GoNil, GoNil]) sample_call
     = (Some (Fatal (NilNotNillable 0)), sample_call) \<and>
   Return (\<lambda>a b. False) (Some [Val (Named ''int'' IntT) (Data 3), GoNil]) sample_call
     = (None, sample_call\<lparr>rets := Some [Val (Named ''int'' IntT) (Data 3), GoNil]\<rparr>) \<and>
   Out (methodType sample_call) 1 = Some (Named ''error'' InterfaceT)"
proof -
  have k: "\<not> nillable (Kind (Named ''int'' IntT))" "nillable (Kind (Named ''error'' InterfaceT))"
    by (simp_all add: nillable_def)
  have i0: "0 < length (elems (Some [GoNil, GoNil]))" "elems (Some [GoNil, GoNil]) ! 0 = GoNil"
    by simp_all
  have bad: "Return (\<lambda>a b. False) (Some [GoNil, GoNil]) sample_call
     = (Some (Fatal (NilNotNillable 0)), sample_call)"
    using C6_Return_nil_needs_nillable [OF i0, of "\<lambda>a b. False" sample_call,
            THEN conjunct2, rule_format,
            of "[Named ''int'' IntT, Named ''error'' InterfaceT]", THEN conjunct2]
    by (simp add: sample_call_def nillable_def)
  have i1: "1 < length (elems (Some [Val (Named ''int'' IntT) (Data 3), GoNil]))"
           "elems (Some [Val (Named ''int'' IntT) (Data 3), GoNil]) ! 1 = GoNil"
    by simp_all
  have ok: "Return (\<lambda>a b. False) (Some [Val (Named ''int'' IntT) (Data 3), GoNil]) sample_call
     = (None, sample_call\<lparr>rets := Some [Val (Named ''int'' IntT) (Data 3), GoNil]\<rparr>)"
    by (simp add: Return_def NumOut_def Out_def sample_call_def nillable_def)
  have "\<exists>want. Out (methodType sample_call) 1 = Some want \<and> nillable (Kind want)"
    using C6_Return_nil_needs_nillable [OF i1, of "\<lambda>a b. False" sample_call,
            THEN conjunct1, rule_format, OF ok] .
  then have out: "Out (methodType sample_call) 1 = Some (Named ''error'' InterfaceT)"
    by (simp add: sample_call_def Out_def)
  show ?thesis using k bad ok out by simp
qed

lemma Return_loop_Inr:
  "Return_loop asg mt k vals = Inr vs \<Longrightarrow> Outs mt = Some outs \<Longrightarrow>
   length vs = length vals \<and> (\<forall>j<length vals. vs ! j = returned_as (outs ! (k + j)) (vals ! j))"
proof (induction vals arbitrary: k vs)
  case Nil
  then show ?case by simp
next
  case (Cons ret rest)
  from Cons.prems(1) obtain want v vs' where want: "Out mt k = Some want"
    and rest: "Return_loop asg mt (Suc k) rest = Inr vs'"
    and head: "(case ret of
                   GoNil \<Rightarrow> if nillable (Kind want) then Inr ret else Inl (Fatal (NilNotNillable k))
                 | Val got r \<Rightarrow>
                     if got = want then Inr ret
                     else if AssignableTo asg got want then Inr (stored want got r)
                     else Inl (Fatal (WrongReturnType k))) = Inr v"
    and vs: "vs = v # vs'"
    by (auto split: option.splits sum.splits)
  have w: "want = outs ! k"
    using want Cons.prems(2) by (simp add: Out_def split: if_splits)
  have v: "v = returned_as (outs ! k) ret"
    using head w by (cases ret) (auto split: if_splits)
  have IH: "length vs' = length rest \<and>
            (\<forall>j<length rest. vs' ! j = returned_as (outs ! (Suc k + j)) (rest ! j))"
    using Cons.IH [OF rest Cons.prems(2)] .
  show ?case
  proof (intro conjI allI impI)
    show "length vs = length (ret # rest)" using vs IH by simp
  next
    fix j assume "j < length (ret # rest)"
    then show "vs ! j = returned_as (outs ! (k + j)) ((ret # rest) ! j)"
      using vs v IH by (cases j) simp_all
  qed
qed

lemma call_Inr_rets:
  assumes "call asg ord c actual mem = (Inr (vs, act), c', mem')"
  shows "(rets c = None \<longrightarrow>
            (\<exists>outs. Outs (methodType c) = Some outs \<and> vs = map (\<lambda>t. ValueInterface (Zero t)) outs)) \<and>
         (\<forall>xs. rets c = Some xs \<longrightarrow> vs = xs)"
  using assms
  by (auto simp: call_def Let_def split: sum.splits option.splits prod.splits if_splits)

lemma call_plain:
  assumes "doFunc c = NoValue" and "setArgs c = None" and "rets c = None"
    and "Outs (methodType c) = Some outs"
  shows "fst (call asg ord c actual mem) = Inr (map (\<lambda>t. ValueInterface (Zero t)) outs, None)"
proof -
  have "setArgs_loop asg Map.empty ord actual mem = (None, mem)"
    by (induction ord) simp_all
  then show ?thesis using assms by (simp add: call_def Let_def)
qed

text \<open>
  Claim C7: when \<^verbatim>\<open>call\<close> returns and no return values are declared (\<open>rets\<close> is nil, as
  it is when \<^verbatim>\<open>Return\<close> was never invoked), its return values are the zero values of the
  method's return slot types, one for each slot, in order (for a slot of interface type
  the nil interface); when return values are declared, they are exactly the declared
  list, which right after \<^verbatim>\<open>Return(xs)\<close> holds each value of \<open>xs\<close> as \<^verbatim>\<open>Return\<close>
  stores it. And \<^verbatim>\<open>call\<close> does return the zero values on an expectation without
  action, output bindings and declared return values.
\<close>

theorem C7_call_return_values:
  "(\<forall>vs act c' mem'. call asg ord c actual mem = (Inr (vs, act), c', mem') \<longrightarrow>
      (rets c = None \<longrightarrow>
         (\<exists>outs. Outs (methodType c) = Some outs \<and> length vs = length outs \<and>
            (\<forall>i<length outs. vs ! i = (if Kind (outs ! i) = Interface then GoNil
                                        else Val (outs ! i) ZeroRep)))) \<and>
      (\<forall>xs. rets c = Some xs \<longrightarrow> vs = xs) \<and>
      (\<forall>c0 xs outs. Return asg (Some xs) c0 = (None, c) \<and> Outs (methodType c) = Some outs \<longrightarrow>
         length vs = length xs \<and> (\<forall>i<length xs. vs ! i = returned_as (outs ! i) (xs ! i)))) \<and>
   (\<forall>outs. doFunc c = NoValue \<and> setArgs c = None \<and> rets c = None \<and>
        Outs (methodType c) = Some outs \<longrightarrow>
      fst (call asg ord c actual mem) = Inr (map (\<lambda>t. ValueInterface (Zero t)) outs, None))"
proof -
  have ret: "\<And>vs act c' mem' c0 xs outs. call asg ord c actual mem = (Inr (vs, act), c', mem') \<Longrightarrow>
      Return asg (Some xs) c0 = (None, c) \<Longrightarrow> Outs (methodType c) = Some outs \<Longrightarrow>
      length vs = length xs \<and> (\<forall>i<length xs. vs ! i = returned_as (outs ! i) (xs ! i))"
  proof -
    fix vs act c' mem' c0 xs outs
    assume run: "call asg ord c actual mem = (Inr (vs, act), c', mem')"
      and R: "Return asg (Some xs) c0 = (None, c)" and o: "Outs (methodType c) = Some outs"
    from R obtain ys where loop: "Return_loop asg (methodType c0) 0 xs = Inr ys"
      and c: "c = c0\<lparr>rets := Some ys\<rparr>"
      by (auto simp: Return_def split: option.splits if_splits sum.splits)
    have o0: "Outs (methodType c0) = Some outs" using o c by simp
    have "vs = ys" using call_Inr_rets [OF run] c by simp
    then show "length vs = length xs \<and> (\<forall>i<length xs. vs ! i = returned_as (outs ! i) (xs ! i))"
      using Return_loop_Inr [OF loop o0] by simp
  qed
  have zero: "\<And>vs act c' mem'. call asg ord c actual mem = (Inr (vs, act), c', mem') \<Longrightarrow>
      rets c = None \<Longrightarrow>
      \<exists>outs. Outs (methodType c) = Some outs \<and> length vs = length outs \<and>
            (\<forall>i<length outs. vs ! i = (if Kind (outs ! i) = Interface then GoNil
                                        else Val (outs ! i) ZeroRep))"
  proof -
    fix vs act c' mem'
    assume run: "call asg ord c actual mem = (Inr (vs, act), c', mem')" and n: "rets c = None"
    then obtain outs where o: "Outs (methodType c) = Some outs"
      and vs: "vs = map (\<lambda>t. ValueInterface (Zero t)) outs"
      using call_Inr_rets [OF run] by blast
    show "\<exists>outs. Outs (methodType c) = Some outs \<and> length vs = length outs \<and>
            (\<forall>i<length outs. vs ! i = (if Kind (outs ! i) = Interface then GoNil
                                        else Val (outs ! i) ZeroRep))"
      using o vs by (simp add: Zero_def)
  qed
  have decl: "\<And>vs act c' mem' xs. call asg ord c actual mem = (Inr (vs, act), c', mem') \<Longrightarrow>
      rets c = Some xs \<Longrightarrow> vs = xs"
    using call_Inr_rets by blast
  show ?thesis
    apply (intro conjI allI impI)
       apply (erule (1) zero)
      apply (erule (1) decl)
     apply (erule conjE, erule (2) ret [THEN conjunct1])
     apply (erule conjE, drule (2) ret [THEN conjunct2], simp)
    apply (elim conjE, erule (3) call_plain)
    done
qed

theorem C7_call_return_values_witness:
  "call (\<lambda>a b. False) [] sample_call
      [Val (Named ''string'' StringT) (Data 1), Val (PtrTo (Named ''int'' IntT)) (Addr 7)] (\<lambda>a. GoNil)
     = (Inr ([Val (Named ''int'' IntT) ZeroRep, GoNil], None), sample_call\<lparr>numCalls := 1\<rparr>, \<lambda>a. GoNil) \<and>
   Return (\<lambda>a b. False) (Some [Val (Named ''int'' IntT) (Data 3), GoNil]) sample_call
     = (None, sample_call\<lparr>rets := Some [Val (Named ''int'' IntT) (Data 3), GoNil]\<rparr>) \<and>
   call (\<lambda>a b. False) [] (sample_call\<lparr>rets := Some [Val (Named ''int'' IntT) (Data 3), GoNil]\<rparr>)
      [Val (Named ''string'' StringT) (Data 1), Val (PtrTo (Named ''int'' IntT)) (Addr 7)] (\<lambda>a. GoNil)
     = (Inr ([Val (Named ''int'' IntT) (Data 3), GoNil], None),
        sample_call\<lparr>rets := Some [Val (Named ''int'' IntT) (Data 3), GoNil], numCalls := 1\<rparr>, \<lambda>a. GoNil)"
proof -
  let ?actual = "[Val (Named ''string'' StringT) (Data 1), Val (PtrTo (Named ''int'' IntT)) (Addr 7)]"
  let ?c = "sample_call\<lparr>rets := Some [Val (Named ''int'' IntT) (Data 3), GoNil]\<rparr>"
  have zero: "call (\<lambda>a b. False) [] sample_call ?actual (\<lambda>a. GoNil)
     = (Inr ([Val (Named ''int'' IntT) ZeroRep, GoNil], None), sample_call\<lparr>numCalls := 1\<rparr>, \<lambda>a. GoNil)"
    by (simp add: call_def sample_call_def Zero_def)
  have ret: "Return (\<lambda>a b. False) (Some [Val (Named ''int'' IntT) (Data 3), GoNil]) sample_call
     = (None, ?c)"
    by (simp add: Return_def NumOut_def Out_def sample_call_def nillable_def)
  have decl: "call (\<lambda>a b. False) [] ?c ?actual (\<lambda>a. GoNil)
     = (Inr ([Val (Named ''int'' IntT) (Data 3), GoNil], None), ?c\<lparr>numCalls := 1\<rparr>, \<lambda>a. GoNil)"
    by (simp add: call_def sample_call_def)
  have "fst (call (\<lambda>a b. False) [] sample_call ?actual (\<lambda>a. GoNil))
          = Inr (map (\<lambda>t. ValueInterface (Zero t)) [Named ''int'' IntT, Named ''error'' InterfaceT], None)"
    using C7_call_return_values [of "\<lambda>a b. False" "[]" sample_call ?actual "\<lambda>a. GoNil",
            THEN conjunct2, rule_format, of "[Named ''int'' IntT, Named ''error'' InterfaceT]"]
    by (simp add: sample_call_def)
  moreover have "\<forall>xs. rets ?c = Some xs \<longrightarrow> [Val (Named ''int'' IntT) (Data 3), GoNil] = xs"
    using C7_call_return_values [of "\<lambda>a b. False" "[]" ?c ?actual "\<lambda>a. GoNil",
            THEN conjunct1, rule_format, OF decl, THEN conjunct2, THEN conjunct1] .
  ultimately show ?thesis using zero ret decl by simp
qed

section \<open>Properties of the output bindings\<close>











end
